theory Spec2Isabelle
  imports Main
begin

section \<open>The rules engine\<close>

text \<open>
  \<^verbatim>\<open>play.py\<close> keeps no chess logic of its own: every question about the position is a
  call into the \<^verbatim>\<open>chess\<close> package (python-chess), which is not part of the repository.
  The package is therefore a parameter of the model: a record with one field for each
  operation that \<^verbatim>\<open>play.py\<close> calls, over a type \<open>'b\<close> of boards and a type \<open>'m\<close> of moves.

  \<^item> \<open>new_board\<close>: \<^verbatim>\<open>chess.Board()\<close>;
  \<^item> \<open>turn\<close>: \<^verbatim>\<open>board.turn\<close>, a Python bool (\<^verbatim>\<open>chess.WHITE\<close> is \<^verbatim>\<open>True\<close>);
  \<^item> \<open>is_game_over\<close>: \<^verbatim>\<open>board.is_game_over()\<close>;
  \<^item> \<open>legal_moves\<close>: \<^verbatim>\<open>board.legal_moves\<close>, in its enumeration order
    (\<^verbatim>\<open>list(board.legal_moves)\<close>); \<^verbatim>\<open>move in board.legal_moves\<close> is membership in it;
  \<^item> \<open>parse_san\<close>: \<^verbatim>\<open>board.parse_san(text)\<close>; \<open>Inl msg\<close> is a raised \<^verbatim>\<open>ValueError\<close>
    with message \<open>msg\<close>;
  \<^item> \<open>from_uci\<close>: \<^verbatim>\<open>chess.Move.from_uci(text)\<close>; \<open>Inl msg\<close> is a raised \<^verbatim>\<open>ValueError\<close>;
  \<^item> \<open>san\<close>: \<^verbatim>\<open>board.san(move)\<close>;
  \<^item> \<open>push\<close>: \<^verbatim>\<open>board.push(move)\<close>, returning the board after the move;
  \<^item> \<open>result\<close>: \<^verbatim>\<open>board.result()\<close>.

  Nothing is assumed of these operations. Where a statement depends on what python-chess
  documents of them, that is a hypothesis of the statement: a new board has White to
  move; \<^verbatim>\<open>push\<close> passes the turn, for the null move too; \<^verbatim>\<open>parse_san\<close> returns a legal move
  or, for the notation \<^verbatim>\<open>--\<close>, the null move, which is never among the legal moves.
\<close>

record ('b, 'm) engine =
  new_board :: 'b
  turn :: "'b \<Rightarrow> bool"
  is_game_over :: "'b \<Rightarrow> bool"
  legal_moves :: "'b \<Rightarrow> 'm list"
  parse_san :: "'b \<Rightarrow> string \<Rightarrow> string + 'm"
  from_uci :: "string \<Rightarrow> string + 'm"
  san :: "'b \<Rightarrow> 'm \<Rightarrow> string"
  push :: "'b \<Rightarrow> 'm \<Rightarrow> 'b"
  result :: "'b \<Rightarrow> string"

definition WHITE :: bool where
  "WHITE = True"

section \<open>Errors, effects and the game state\<close>

datatype py_error = ValueError string | IndexError string

text \<open>
  What one call of \<^verbatim>\<open>client.chat.completions.create\<close> and the decoding of its answer
  (lines 97 to 112) can come to:
  \<^item> \<open>ApiException msg\<close>: the call, or \<^verbatim>\<open>response.choices[0].message\<close>, raises;
  \<^item> \<open>NoToolCalls\<close>: \<^verbatim>\<open>message.tool_calls\<close> is empty or \<^verbatim>\<open>None\<close>;
  \<^item> \<open>BadArguments msg\<close>: \<^verbatim>\<open>json.loads\<close> or \<^verbatim>\<open>arguments.get\<close> raises;
  \<^item> \<open>NonStringMove shown msg\<close>: \<^verbatim>\<open>arguments.get("move")\<close> is \<^verbatim>\<open>None\<close> or another
    value that is not a string, printed as \<open>shown\<close>, on which \<^verbatim>\<open>parse_san\<close> raises a
    \<^verbatim>\<open>TypeError\<close> with message \<open>msg\<close>;
  \<^item> \<open>ChosenMove text\<close>: \<^verbatim>\<open>arguments.get("move")\<close> is the string \<open>text\<close>.
\<close>

datatype api_result =
    ApiException string
  | NoToolCalls
  | BadArguments string
  | NonStringMove string string
  | ChosenMove string

text \<open>
  The request of lines 97 to 103: the model name, the content of the one user message,
  the one tool with the \<^verbatim>\<open>enum\<close> of its \<^verbatim>\<open>move\<close> parameter, and the forced tool choice.
  The sampling temperature (0.7) is left out: no claim depends on it.
\<close>

record request =
  req_model :: string
  req_content :: string
  req_tool_name :: string
  req_tool_description :: string
  req_enum :: "string list"
  req_enum_description :: string
  req_required :: "string list"
  req_tool_choice :: string

text \<open>
  The effects of the program, in the order in which they happen. \<open>Display b title\<close> is
  one call of \<^verbatim>\<open>display_board\<close> (the temporary HTML file, the browser and the line
  printed with the file's name); \<open>Input prompt\<close> is one call of \<^verbatim>\<open>input\<close>;
  \<open>Push m\<close> is one call of \<^verbatim>\<open>board.push\<close>, the only mutation of the board.
\<close>

datatype ('b, 'm) event =
    Print string
  | PrintBoard 'b
  | Display 'b string
  | Input string
  | Sleep nat
  | Request request
  | Push 'm

record ('b, 'm) game =
  board :: 'b
  move_history :: "string list"
  out :: "('b, 'm) event list"

definition emit :: "('b, 'm) game \<Rightarrow> ('b, 'm) event list \<Rightarrow> ('b, 'm) game" where
  "emit st evs = st\<lparr>out := out st @ evs\<rparr>"

section \<open>\<^verbatim>\<open>get_gpt4_move\<close>\<close>

subsection \<open>The transcript (lines 51 to 60)\<close>

text \<open>Python's \<^verbatim>\<open>str\<close> of a natural number, as the f-string formats it: decimal digits.\<close>

fun str_nat :: "nat \<Rightarrow> string" where
  "str_nat n =
     (if n < 10 then [char_of (48 + n)]
      else str_nat (n div 10) @ [char_of (48 + n mod 10)])"

declare str_nat.simps [simp del]

text \<open>
  The loop \<^verbatim>\<open>for i, move in enumerate(move_history)\<close> with the string it builds by
  \<^verbatim>\<open>+=\<close>: the index, the moves still to visit, the string so far.
\<close>

fun move_string_loop :: "nat \<Rightarrow> string list \<Rightarrow> string \<Rightarrow> string" where
  "move_string_loop i [] move_string = move_string"
| "move_string_loop i (move # rest) move_string =
     move_string_loop (Suc i) rest
       (if i mod 2 = 0
        then move_string @ str_nat ((i div 2) + 1) @ ''. '' @ move @ '' ''
        else move_string @ move @ '' '')"

definition build_move_string :: "('b, 'm) engine \<Rightarrow> 'b \<Rightarrow> string list \<Rightarrow> string" where
  "build_move_string E b mh =
     (let move_string = move_string_loop 0 mh []
      in if turn E b = WHITE \<and> mh \<noteq> []
         then move_string @ str_nat ((length mh div 2) + 1) @ ''. ''
         else move_string)"

text \<open>
  The transcript as the specification words it: one piece for each index of the history,
  concatenated in order.
\<close>

definition transcript_piece :: "nat \<Rightarrow> string \<Rightarrow> string" where
  "transcript_piece i move =
     (if even i then str_nat (i div 2 + 1) @ ''. '' @ move @ '' '' else move @ '' '')"

definition spec_transcript :: "string list \<Rightarrow> string" where
  "spec_transcript mh = concat (map (\<lambda>i. transcript_piece i (mh ! i)) [0..<length mh])"

subsection \<open>The request (lines 62 to 103)\<close>

definition legal_moves_san :: "('b, 'm) engine \<Rightarrow> 'b \<Rightarrow> string list" where
  "legal_moves_san E b = map (san E b) (legal_moves E b)"

definition make_prompt :: "('b, 'm) engine \<Rightarrow> 'b \<Rightarrow> string list \<Rightarrow> string" where
  "make_prompt E b mh = ''Let's play chess. '' @ build_move_string E b mh"

definition make_request :: "('b, 'm) engine \<Rightarrow> 'b \<Rightarrow> string list \<Rightarrow> request" where
  "make_request E b mh =
     \<lparr> req_model = ''gpt-4o'',
       req_content = make_prompt E b mh,
       req_tool_name = ''make_chess_move'',
       req_tool_description = ''Make a chess move'',
       req_enum = legal_moves_san E b,
       req_enum_description = ''The chess move in Standard Algebraic Notation (SAN)'',
       req_required = [''move''],
       req_tool_choice = ''make_chess_move'' \<rparr>"

subsection \<open>The answer and the fallback (lines 96 to 128)\<close>

text \<open>\<^verbatim>\<open>list(board.legal_moves)[0]\<close>, which raises \<^verbatim>\<open>IndexError\<close> on an empty list.\<close>

definition first_legal_move :: "('b, 'm) engine \<Rightarrow> 'b \<Rightarrow> py_error + 'm" where
  "first_legal_move E b =
     (case legal_moves E b of
        [] \<Rightarrow> Inl (IndexError ''list index out of range'')
      | m # _ \<Rightarrow> Inr m)"

text \<open>The handler \<^verbatim>\<open>except Exception as e\<close> (lines 125 to 128), for an exception that prints as \<open>msg\<close>.\<close>

definition except_handler ::
  "('b, 'm) engine \<Rightarrow> 'b \<Rightarrow> string \<Rightarrow> ('b, 'm) event list \<times> (py_error + 'm)" where
  "except_handler E b msg =
     ([Print (''Error getting move from GPT-4o: '' @ msg),
       Print ''Choosing a random legal move instead.''],
      first_legal_move E b)"

definition says :: "string \<Rightarrow> ('b, 'm) event" where
  "says chosen_move = Print (''\<newline>GPT-4o says: I choose '' @ chosen_move)"

text \<open>
  The body of the \<^verbatim>\<open>try\<close>, after the call has come to \<open>r\<close>. The fallback of line 123 is
  inside the \<^verbatim>\<open>try\<close>: on an empty list its \<^verbatim>\<open>IndexError\<close> is caught by the handler, whose
  own fallback of line 128 then raises it for good.
\<close>

fun answer ::
  "('b, 'm) engine \<Rightarrow> 'b \<Rightarrow> api_result \<Rightarrow> ('b, 'm) event list \<times> (py_error + 'm)" where
  "answer E b (ApiException msg) = except_handler E b msg"
| "answer E b NoToolCalls =
     (case legal_moves E b of
        m # _ \<Rightarrow> ([Print ''GPT-4o didn't make a function call. Choosing randomly.''], Inr m)
      | [] \<Rightarrow>
          (Print ''GPT-4o didn't make a function call. Choosing randomly.''
             # fst (except_handler E b ''list index out of range''),
           snd (except_handler E b ''list index out of range'')))"
| "answer E b (BadArguments msg) = except_handler E b msg"
| "answer E b (NonStringMove shown msg) =
     (says shown # fst (except_handler E b msg), snd (except_handler E b msg))"
| "answer E b (ChosenMove chosen_move) =
     (case parse_san E b chosen_move of
        Inr move \<Rightarrow> ([says chosen_move], Inr move)
      | Inl msg \<Rightarrow>
          (says chosen_move # fst (except_handler E b msg), snd (except_handler E b msg)))"

text \<open>
  \<^verbatim>\<open>get_gpt4_move(board, move_history)\<close>, given what the call to the model comes to:
  the effects, and the move returned or the exception raised.
\<close>

definition get_gpt4_move ::
  "('b, 'm) engine \<Rightarrow> 'b \<Rightarrow> string list \<Rightarrow> api_result
     \<Rightarrow> ('b, 'm) event list \<times> (py_error + 'm)" where
  "get_gpt4_move E b mh r =
     ([Print ''\<newline>--- Prompt sent to GPT-4o ---'',
       Print (make_prompt E b mh),
       Print ''--- End of prompt ---\<newline>'',
       Request (make_request E b mh)]
        @ fst (answer E b r),
      snd (answer E b r))"

section \<open>\<^verbatim>\<open>play_chess\<close>\<close>

text \<open>How one pass through the body of the \<^verbatim>\<open>while\<close> loop ends.\<close>

datatype flow = Continue | Break | Raise py_error

text \<open>Lines 157 to 159 and 180 to 182: the notation is computed on the board before the push.\<close>

definition make_the_move :: "('b, 'm) engine \<Rightarrow> ('b, 'm) game \<Rightarrow> 'm \<Rightarrow> ('b, 'm) game" where
  "make_the_move E st move =
     (let san_move = san E (board st) move
      in st\<lparr> board := push E (board st) move,
             move_history := move_history st @ [san_move],
             out := out st @ [Push move] \<rparr>)"

definition after_human_move :: "('b, 'm) engine \<Rightarrow> ('b, 'm) game \<Rightarrow> 'm \<Rightarrow> ('b, 'm) game \<times> flow" where
  "after_human_move E st move =
     (let san_move = san E (board st) move;
          st' = make_the_move E st move;
          st'' = emit st' [Print ''\<newline>Board after your move:'',
                           PrintBoard (board st'),
                           Display (board st') (''After '' @ san_move)]
      in (st'', if is_game_over E (board st'') then Break else Continue))"

text \<open>The human's turn (lines 143 to 170) on the line \<open>move_input\<close> read from the terminal.\<close>

definition human_turn :: "('b, 'm) engine \<Rightarrow> ('b, 'm) game \<Rightarrow> string \<Rightarrow> ('b, 'm) game \<times> flow" where
  "human_turn E st move_input =
     (let st1 = emit st [Input ''\<newline>Enter your move (e.g. 'e4' or 'e2e4'): '']
      in case parse_san E (board st1) move_input of
           Inr move \<Rightarrow> after_human_move E st1 move
         | Inl _ \<Rightarrow>
             (case from_uci E move_input of
                Inl _ \<Rightarrow>
                  (emit st1 [Print ''\<newline>Invalid move format! Please use standard notation (e.g. 'e4') or UCI notation (e.g. 'e2e4').''],
                   Continue)
              | Inr move \<Rightarrow>
                  if move \<notin> set (legal_moves E (board st1))
                  then (emit st1 [Print ''\<newline>Illegal move! Try again.''], Continue)
                  else after_human_move E st1 move))"

text \<open>The model's turn (lines 173 to 187), given what the call to the model comes to.\<close>

definition model_turn :: "('b, 'm) engine \<Rightarrow> ('b, 'm) game \<Rightarrow> api_result \<Rightarrow> ('b, 'm) game \<times> flow" where
  "model_turn E st r =
     (let st1 = emit st [Print ''\<newline>GPT-4o is thinking...'', Sleep 1];
          got = get_gpt4_move E (board st1) (move_history st1) r;
          st2 = emit st1 (fst got)
      in case snd got of
           Inl e \<Rightarrow> (st2, Raise e)
         | Inr move \<Rightarrow>
             (let san_move = san E (board st2) move;
                  st3 = make_the_move E st2 move
              in (emit st3 [Print (''\<newline>GPT-4o plays: '' @ san_move),
                            Print ''\<newline>Board after GPT-4o's move:'',
                            PrintBoard (board st3),
                            Display (board st3) (''After '' @ san_move)],
                  Continue)))"

text \<open>
  Where a run of the loop stands once the lines typed so far and the answers of the model
  so far are used up: the loop has been left, it waits in \<^verbatim>\<open>input\<close>, it waits for the
  model, or an exception has left it.
\<close>

datatype status = Done | AwaitingInput | AwaitingReply | Raised py_error

text \<open>
  The \<^verbatim>\<open>while not board.is_game_over()\<close> loop (lines 140 to 187), run on the lines that
  the human types (\<open>ins\<close>) and on what the successive calls to the model come to
  (\<open>reps\<close>). Each pass uses up one of them, which is the measure of termination; a run
  that is given no more of them stops where it waits.
\<close>

function play_loop ::
  "('b, 'm) engine \<Rightarrow> ('b, 'm) game \<Rightarrow> string list \<Rightarrow> api_result list
     \<Rightarrow> status \<times> ('b, 'm) game" where
  "play_loop E st ins reps =
     (if is_game_over E (board st) then (Done, st)
      else if turn E (board st) = WHITE then
        (case ins of
           [] \<Rightarrow> (AwaitingInput, st)
         | move_input # ins' \<Rightarrow>
             (case snd (human_turn E st move_input) of
                Continue \<Rightarrow> play_loop E (fst (human_turn E st move_input)) ins' reps
              | Break \<Rightarrow> (Done, fst (human_turn E st move_input))
              | Raise e \<Rightarrow> (Raised e, fst (human_turn E st move_input))))
      else
        (case reps of
           [] \<Rightarrow> (AwaitingReply, st)
         | r # reps' \<Rightarrow>
             (case snd (model_turn E st r) of
                Continue \<Rightarrow> play_loop E (fst (model_turn E st r)) ins reps'
              | Break \<Rightarrow> (Done, fst (model_turn E st r))
              | Raise e \<Rightarrow> (Raised e, fst (model_turn E st r)))))"
  by pat_completeness auto
termination
  by (relation "measure (\<lambda>(E, st, ins, reps). length ins + length reps)") auto

declare play_loop.simps [simp del]

text \<open>Lines 132 to 138: the new board, the empty history, the first display.\<close>

definition initial_game :: "('b, 'm) engine \<Rightarrow> ('b, 'm) game" where
  "initial_game E =
     \<lparr> board = new_board E,
       move_history = [],
       out = [Print ''Initial board:'',
              PrintBoard (new_board E),
              Display (new_board E) ''Initial position''] \<rparr>"

text \<open>Lines 194 to 199: the line printed for a result code.\<close>

definition verdict :: "string \<Rightarrow> string" where
  "verdict res =
     (if res = ''1-0'' then ''You (White) won!''
      else if res = ''0-1'' then ''GPT-4o (Black) won!''
      else ''It's a draw!'')"

text \<open>Lines 189 to 199.\<close>

definition game_over_report :: "('b, 'm) engine \<Rightarrow> ('b, 'm) game \<Rightarrow> ('b, 'm) game" where
  "game_over_report E st =
     (let res = result E (board st)
      in emit st [Print ''\<newline>Game over!'',
                  Print (''Result: '' @ res),
                  Print (verdict res)])"

definition play_chess ::
  "('b, 'm) engine \<Rightarrow> string list \<Rightarrow> api_result list \<Rightarrow> status \<times> ('b, 'm) game" where
  "play_chess E ins reps =
     (case play_loop E (initial_game E) ins reps of
        (Done, st) \<Rightarrow> (Done, game_over_report E st)
      | (s, st) \<Rightarrow> (s, st))"

section \<open>The script\<close>

text \<open>
  Lines 12 to 16 run when the module is loaded, before line 202 is reached:
  \<^verbatim>\<open>os.environ.get\<close> gives \<^verbatim>\<open>None\<close> for a variable that is not set, and
  \<^verbatim>\<open>not api_key\<close> holds for \<^verbatim>\<open>None\<close> and for the empty string.
\<close>

definition api_key_missing :: "string option \<Rightarrow> bool" where
  "api_key_missing api_key = (case api_key of None \<Rightarrow> True | Some k \<Rightarrow> k = [])"

definition missing_key_message :: string where
  "missing_key_message =
     ''OPENAI_API_KEY environment variable is not set. Please set it before running the program.''"

text \<open>Lines 202 to 207: only a \<^verbatim>\<open>ValueError\<close> that leaves \<^verbatim>\<open>play_chess\<close> is caught.\<close>

definition main ::
  "('b, 'm) engine \<Rightarrow> string list \<Rightarrow> api_result list \<Rightarrow> status \<times> ('b, 'm) event list" where
  "main E ins reps =
     (case play_chess E ins reps of
        (Raised (ValueError e), st) \<Rightarrow>
          (Done,
           out st @ [Print (''Error: '' @ e),
                     Print (''Please set your OpenAI API key with: export OPENAI_API_KEY='your-api-key'' @ [CHR 0x27])])
      | (s, st) \<Rightarrow> (s, out st))"

text \<open>
  The whole script, given the value of \<^verbatim>\<open>OPENAI_API_KEY\<close> in the environment. A status
  \<open>Raised e\<close> is an exception that nothing catches: the interpreter ends the process and
  writes the traceback, whose last line is the exception's type and message.
\<close>

definition script ::
  "('b, 'm) engine \<Rightarrow> string option \<Rightarrow> string list \<Rightarrow> api_result list
     \<Rightarrow> status \<times> ('b, 'm) event list" where
  "script E api_key ins reps =
     (if api_key_missing api_key then (Raised (ValueError missing_key_message), [])
      else main E ins reps)"

definition traceback_last_line :: "status \<Rightarrow> string option" where
  "traceback_last_line s =
     (case s of
        Raised (ValueError msg) \<Rightarrow> Some (''ValueError: '' @ msg)
      | Raised (IndexError msg) \<Rightarrow> Some (''IndexError: '' @ msg)
      | _ \<Rightarrow> None)"

section \<open>Reading the trace\<close>

text \<open>The moves pushed on the board, the requests sent, and the lines printed, in order.\<close>

fun pushes :: "('b, 'm) event list \<Rightarrow> 'm list" where
  "pushes [] = []"
| "pushes (Push m # es) = m # pushes es"
| "pushes (_ # es) = pushes es"

fun requests :: "('b, 'm) event list \<Rightarrow> request list" where
  "requests [] = []"
| "requests (Request rq # es) = rq # requests es"
| "requests (_ # es) = requests es"

fun printed :: "('b, 'm) event list \<Rightarrow> string list" where
  "printed [] = []"
| "printed (Print s # es) = s # printed es"
| "printed (_ # es) = printed es"

text \<open>The notations of a sequence of moves played from a board, each on the board before it.\<close>

fun sans :: "('b, 'm) engine \<Rightarrow> 'b \<Rightarrow> 'm list \<Rightarrow> string list" where
  "sans E b [] = []"
| "sans E b (m # ms) = san E b m # sans E (push E b m) ms"

text \<open>Whether each move of a sequence is legal on the board it is played on.\<close>

fun all_legal :: "('b, 'm) engine \<Rightarrow> 'b \<Rightarrow> 'm list \<Rightarrow> bool" where
  "all_legal E b [] = True"
| "all_legal E b (m # ms) = (m \<in> set (legal_moves E b) \<and> all_legal E (push E b m) ms)"

section \<open>A small rules engine to run the program on\<close>

text \<open>
  A stand-in for the rules engine with the same interface, on which the program can be
  run on concrete inputs: a heap of counters from which the two sides in turn take one or
  two, the side that takes the last one winning. It follows python-chess where the
  program depends on it: pushing a move passes the turn, a board that is not over has a
  legal move, and \<^verbatim>\<open>parse_san\<close> returns a legal move or, on the notation \<^verbatim>\<open>--\<close>, the null
  move (python-chess documents of \<^verbatim>\<open>parse_san\<close>: "The returned move is guaranteed to be
  either legal or a null move"), which is never in \<^verbatim>\<open>legal_moves\<close>, is written \<^verbatim>\<open>--\<close> by
  \<^verbatim>\<open>san\<close>, and on \<^verbatim>\<open>push\<close> only passes the turn.
\<close>

datatype nim_move = Null | Take1 | Take2

record nim_board =
  heap :: nat
  white_to_move :: bool

definition nim_legal_moves :: "nim_board \<Rightarrow> nim_move list" where
  "nim_legal_moves b =
     (if heap b = 0 then [] else if heap b = 1 then [Take1] else [Take1, Take2])"

definition nim_san :: "nim_board \<Rightarrow> nim_move \<Rightarrow> string" where
  "nim_san b m = (case m of Null \<Rightarrow> ''--'' | Take1 \<Rightarrow> ''t1'' | Take2 \<Rightarrow> ''t2'')"

definition nim_parse_san :: "nim_board \<Rightarrow> string \<Rightarrow> string + nim_move" where
  "nim_parse_san b text =
     (if text = ''--'' then Inr Null
      else if text = ''t1'' \<and> Take1 \<in> set (nim_legal_moves b) then Inr Take1
      else if text = ''t2'' \<and> Take2 \<in> set (nim_legal_moves b) then Inr Take2
      else Inl (''illegal san: '' @ text))"

definition nim_from_uci :: "string \<Rightarrow> string + nim_move" where
  "nim_from_uci text =
     (if text = ''0000'' then Inr Null
      else if text = ''take1'' then Inr Take1
      else if text = ''take2'' then Inr Take2
      else Inl (''invalid uci: '' @ text))"

definition nim_push :: "nim_board \<Rightarrow> nim_move \<Rightarrow> nim_board" where
  "nim_push b m =
     \<lparr> heap = heap b - (case m of Null \<Rightarrow> 0 | Take1 \<Rightarrow> 1 | Take2 \<Rightarrow> 2),
       white_to_move = (\<not> white_to_move b) \<rparr>"

definition nim_result :: "nim_board \<Rightarrow> string" where
  "nim_result b =
     (if heap b \<noteq> 0 then ''*'' else if white_to_move b then ''0-1'' else ''1-0'')"

definition nim :: "(nim_board, nim_move) engine" where
  "nim =
     \<lparr> new_board = \<lparr> heap = 4, white_to_move = True \<rparr>,
       turn = white_to_move,
       is_game_over = (\<lambda>b. heap b = 0),
       legal_moves = nim_legal_moves,
       parse_san = nim_parse_san,
       from_uci = nim_from_uci,
       san = nim_san,
       push = nim_push,
       result = nim_result \<rparr>"

section \<open>What a turn does, and what the board reflects\<close>

text \<open>A turn that leaves the board, the history and the pushes of the trace as they were.\<close>

definition unchanged :: "('b, 'm) game \<Rightarrow> ('b, 'm) game \<Rightarrow> bool" where
  "unchanged st st' =
     (board st' = board st \<and> move_history st' = move_history st \<and>
      pushes (out st') = pushes (out st))"

text \<open>
  A turn that pushes the one move \<open>m\<close> and appends the one notation of \<open>m\<close>, written on
  the board before the push.
\<close>

definition moved :: "('b, 'm) engine \<Rightarrow> ('b, 'm) game \<Rightarrow> 'm \<Rightarrow> ('b, 'm) game \<Rightarrow> bool" where
  "moved E st m st' =
     (board st' = push E (board st) m \<and>
      move_history st' = move_history st @ [san E (board st) m] \<and>
      pushes (out st') = pushes (out st) @ [m])"

text \<open>
  The board is the new board with every move pushed so far applied in order, and the
  history holds the notations of those moves.
\<close>

definition reflects :: "('b, 'm) engine \<Rightarrow> ('b, 'm) game \<Rightarrow> bool" where
  "reflects E st =
     (board st = foldl (push E) (new_board E) (pushes (out st)) \<and>
      move_history st = sans E (new_board E) (pushes (out st)))"

section \<open>Failures, rejections and sides\<close>

text \<open>
  The outcomes of the call on which \<^verbatim>\<open>get_gpt4_move\<close> takes a fallback: every one but a
  string that \<^verbatim>\<open>parse_san\<close> translates.
\<close>

fun falls_back :: "('b, 'm) engine \<Rightarrow> 'b \<Rightarrow> api_result \<Rightarrow> bool" where
  "falls_back E b (ChosenMove chosen_move) =
     (case parse_san E b chosen_move of Inl _ \<Rightarrow> True | Inr _ \<Rightarrow> False)"
| "falls_back E b _ = True"

text \<open>
  The lines on which the human's turn reaches one of its two \<^verbatim>\<open>continue\<close> statements:
  \<^verbatim>\<open>parse_san\<close> raises, and then \<^verbatim>\<open>from_uci\<close> raises or gives a move that is not legal.
\<close>

definition rejected :: "('b, 'm) engine \<Rightarrow> 'b \<Rightarrow> string \<Rightarrow> bool" where
  "rejected E b move_input =
     (case parse_san E b move_input of
        Inr _ \<Rightarrow> False
      | Inl _ \<Rightarrow>
          (case from_uci E move_input of
             Inl _ \<Rightarrow> True
           | Inr move \<Rightarrow> move \<notin> set (legal_moves E b)))"

text \<open>
  The board reflects the pushes of the trace, and each of them was legal on the board it
  was pushed on.
\<close>

definition legally_played :: "('b, 'm) engine \<Rightarrow> ('b, 'm) game \<Rightarrow> bool" where
  "legally_played E st =
     (reflects E st \<and> all_legal E (new_board E) (pushes (out st)))"

text \<open>
  Who acts in a pass of the loop can be read off the trace: the human is asked by
  \<^verbatim>\<open>input\<close>, the model by a request.
\<close>

datatype actor = Human | Model

text \<open>
  The trace replayed from a board: for every time a side is asked, the side to move on
  the board at that time and who is asked.
\<close>

fun turn_log :: "('b, 'm) engine \<Rightarrow> 'b \<Rightarrow> ('b, 'm) event list \<Rightarrow> (bool \<times> actor) list" where
  "turn_log E b [] = []"
| "turn_log E b (Input _ # es) = (turn E b, Human) # turn_log E b es"
| "turn_log E b (Request _ # es) = (turn E b, Model) # turn_log E b es"
| "turn_log E b (Push m # es) = turn_log E (push E b m) es"
| "turn_log E b (_ # es) = turn_log E b es"

text \<open>Who was asked last (\<open>a\<close> when nobody was), and who made each push of the trace.\<close>

fun asked :: "actor \<Rightarrow> ('b, 'm) event list \<Rightarrow> actor" where
  "asked a [] = a"
| "asked a (Input _ # es) = asked Human es"
| "asked a (Request _ # es) = asked Model es"
| "asked a (_ # es) = asked a es"

fun movers :: "actor \<Rightarrow> ('b, 'm) event list \<Rightarrow> actor list" where
  "movers a [] = []"
| "movers a (Input _ # es) = movers Human es"
| "movers a (Request _ # es) = movers Model es"
| "movers a (Push _ # es) = a # movers a es"
| "movers a (_ # es) = movers a es"

text \<open>The first \<open>n\<close> movers of a game in which the human starts and the sides alternate.\<close>

definition alternating :: "nat \<Rightarrow> actor list" where
  "alternating n = map (\<lambda>i. if even i then Human else Model) [0..<n]"

text \<open>Every time a side was asked, it was the human exactly when White was to move.\<close>

definition dispatched :: "(bool \<times> actor) list \<Rightarrow> bool" where
  "dispatched log = list_all (\<lambda>(t, a). (a = Human) = (t = WHITE)) log"

definition well_dispatched :: "('b, 'm) engine \<Rightarrow> ('b, 'm) game \<Rightarrow> bool" where
  "well_dispatched E st =
     (reflects E st \<and> dispatched (turn_log E (new_board E) (out st)))"

definition in_step :: "('b, 'm) engine \<Rightarrow> ('b, 'm) game \<Rightarrow> bool" where
  "in_step E st =
     (reflects E st \<and>
      movers Human (out st) = alternating (length (pushes (out st))) \<and>
      (turn E (board st) = WHITE) = even (length (pushes (out st))))"

section \<open>The transcript\<close>

lemma pieces_Cons:
  "map (\<lambda>k. transcript_piece (i + k) ((mv # rest) ! k)) [0..<length (mv # rest)] =
   transcript_piece i mv # map (\<lambda>k. transcript_piece (Suc i + k) (rest ! k)) [0..<length rest]"
proof -
  have "[0..<length (mv # rest)] = 0 # map Suc [0..<length rest]"
    by (simp add: upt_conv_Cons map_Suc_upt del: upt_Suc)
  then show ?thesis
    by (simp add: o_def)
qed

text \<open>The loop started at index \<open>i\<close> on the string \<open>acc\<close> appends the pieces of the indices from \<open>i\<close> on.\<close>

lemma move_string_loop_acc:
  "move_string_loop i mh acc =
   acc @ concat (map (\<lambda>k. transcript_piece (i + k) (mh ! k)) [0..<length mh])"
proof (induction mh arbitrary: i acc)
  case Nil
  then show ?case by simp
next
  case (Cons mv rest)
  have step: "move_string_loop i (mv # rest) acc =
              move_string_loop (Suc i) rest (acc @ transcript_piece i mv)"
    by (simp add: transcript_piece_def even_iff_mod_2_eq_zero)
  show ?case
    unfolding step Cons.IH pieces_Cons by simp
qed

lemma move_string_loop_spec: "move_string_loop 0 mh [] = spec_transcript mh"
  by (simp add: move_string_loop_acc spec_transcript_def)

lemma transcript_example:
  "make_prompt nim \<lparr>heap = 1, white_to_move = False\<rparr> [''e4'', ''e5'', ''Nf3''] =
   ''Let's play chess. 1. e4 e5 2. Nf3 ''"
  by code_simp

text \<open>
  Claim C6. For every move history, the loop of \<^verbatim>\<open>get_gpt4_move\<close> builds the transcript
  that concatenates, index by index, the piece \<^verbatim>\<open>"{(i//2)+1}. {move} "\<close> for an even
  index and \<^verbatim>\<open>"{move} "\<close> for an odd one. The string sent on is that transcript, followed
  by the number of the coming move only when White is to move on a history that is not
  empty.
\<close>

theorem transcript_as_specified:
  "move_string_loop 0 mh [] = spec_transcript mh \<and>
   build_move_string E b mh =
     spec_transcript mh @
       (if turn E b = WHITE \<and> mh \<noteq> [] then str_nat (length mh div 2 + 1) @ ''. '' else [])"
  by (simp add: move_string_loop_spec build_move_string_def)

section \<open>The trace and the turns\<close>


lemma pushes_append [simp]: "pushes (xs @ ys) = pushes xs @ pushes ys"
  by (induction xs rule: pushes.induct) simp_all

lemma requests_append [simp]: "requests (xs @ ys) = requests xs @ requests ys"
  by (induction xs rule: requests.induct) simp_all

lemma printed_append [simp]: "printed (xs @ ys) = printed xs @ printed ys"
  by (induction xs rule: printed.induct) simp_all

lemma sans_snoc: "sans E b (ms @ [m]) = sans E b ms @ [san E (foldl (push E) b ms) m]"
  by (induction ms arbitrary: b) simp_all

lemma all_legal_snoc:
  "all_legal E b (ms @ [m]) = (all_legal E b ms \<and> m \<in> set (legal_moves E (foldl (push E) b ms)))"
  by (induction ms arbitrary: b) simp_all

lemma length_sans [simp]: "length (sans E b ms) = length ms"
  by (induction ms arbitrary: b) simp_all

lemma emit_simps [simp]:
  "board (emit st evs) = board st"
  "move_history (emit st evs) = move_history st"
  "out (emit st evs) = out st @ evs"
  by (simp_all add: emit_def)

lemma make_the_move_simps [simp]:
  "board (make_the_move E st m) = push E (board st) m"
  "move_history (make_the_move E st m) = move_history st @ [san E (board st) m]"
  "out (make_the_move E st m) = out st @ [Push m]"
  by (simp_all add: make_the_move_def Let_def)

text \<open>The events of \<^verbatim>\<open>get_gpt4_move\<close>: no push, one request.\<close>

lemma except_handler_events [simp]:
  "pushes (fst (except_handler E b msg)) = []"
  "requests (fst (except_handler E b msg)) = []"
  by (simp_all add: except_handler_def)

lemma answer_events [simp]:
  "pushes (fst (answer E b r)) = []"
  "requests (fst (answer E b r)) = []"
  by (cases r; simp add: says_def split: list.splits sum.splits)+

lemma get_gpt4_move_events [simp]:
  "pushes (fst (get_gpt4_move E b mh r)) = []"
  "requests (fst (get_gpt4_move E b mh r)) = [make_request E b mh]"
  by (simp_all add: get_gpt4_move_def)

text \<open>What a turn does to the board, the history and the pushes of the trace.\<close>

lemma after_human_move_moved: "moved E st m (fst (after_human_move E st m))"
  by (simp add: after_human_move_def moved_def Let_def)

lemma human_turn_effect:
  "unchanged st (fst (human_turn E st s)) \<and> snd (human_turn E st s) = Continue \<or>
   (\<exists>m. (parse_san E (board st) s = Inr m \<or>
          from_uci E s = Inr m \<and> m \<in> set (legal_moves E (board st))) \<and>
        moved E st m (fst (human_turn E st s)))"
  by (auto simp: human_turn_def after_human_move_def moved_def unchanged_def Let_def
           split: sum.splits)

lemma model_turn_effect:
  "unchanged st (fst (model_turn E st r)) \<and> (\<exists>e. snd (model_turn E st r) = Raise e) \<or>
   (\<exists>m. snd (get_gpt4_move E (board st) (move_history st) r) = Inr m \<and>
        moved E st m (fst (model_turn E st r)))"
  by (auto simp: model_turn_def moved_def unchanged_def Let_def split: sum.splits)

lemma play_loop_over:
  "is_game_over E (board st) \<Longrightarrow> play_loop E st ins reps = (Done, st)"
  by (subst play_loop.simps) simp

lemma play_loop_no_input:
  "\<not> is_game_over E (board st) \<Longrightarrow> turn E (board st) = WHITE
     \<Longrightarrow> play_loop E st [] reps = (AwaitingInput, st)"
  by (subst play_loop.simps) simp

lemma play_loop_no_reply:
  "\<not> is_game_over E (board st) \<Longrightarrow> turn E (board st) \<noteq> WHITE
     \<Longrightarrow> play_loop E st ins [] = (AwaitingReply, st)"
  by (subst play_loop.simps) simp

lemma play_loop_human:
  "\<not> is_game_over E (board st) \<Longrightarrow> turn E (board st) = WHITE
     \<Longrightarrow> play_loop E st (s # ins) reps =
         (case snd (human_turn E st s) of
            Continue \<Rightarrow> play_loop E (fst (human_turn E st s)) ins reps
          | Break \<Rightarrow> (Done, fst (human_turn E st s))
          | Raise e \<Rightarrow> (Raised e, fst (human_turn E st s)))"
  by (subst play_loop.simps) simp

lemma play_loop_model:
  "\<not> is_game_over E (board st) \<Longrightarrow> turn E (board st) \<noteq> WHITE
     \<Longrightarrow> play_loop E st ins (r # reps) =
         (case snd (model_turn E st r) of
            Continue \<Rightarrow> play_loop E (fst (model_turn E st r)) ins reps
          | Break \<Rightarrow> (Done, fst (model_turn E st r))
          | Raise e \<Rightarrow> (Raised e, fst (model_turn E st r)))"
  by (subst play_loop.simps) simp

lemma play_loop_invariant:
  assumes "P st"
    and "\<And>st s. P st \<Longrightarrow> \<not> is_game_over E (board st) \<Longrightarrow> turn E (board st) = WHITE
           \<Longrightarrow> P (fst (human_turn E st s))"
    and "\<And>st r. P st \<Longrightarrow> \<not> is_game_over E (board st) \<Longrightarrow> turn E (board st) \<noteq> WHITE
           \<Longrightarrow> P (fst (model_turn E st r))"
  shows "P (snd (play_loop E st ins reps))"
  using assms
proof (induction E st ins reps rule: play_loop.induct)
  case (1 E st ins reps)
  note human = 1(4) and model = 1(5)
  show ?case
  proof (cases "is_game_over E (board st)")
    case True
    then show ?thesis using 1(3) by (simp add: play_loop_over)
  next
    case over: False
    show ?thesis
    proof (cases "turn E (board st) = WHITE")
      case white: True
      show ?thesis
      proof (cases ins)
        case Nil
        then show ?thesis using 1(3) by (simp add: play_loop_no_input[OF over white])
      next
        case (Cons s ins')
        have P': "P (fst (human_turn E st s))"
          by (rule human[OF 1(3) over white])
        show ?thesis
        proof (cases "snd (human_turn E st s)")
          case Continue
          have "P (snd (play_loop E (fst (human_turn E st s)) ins' reps))"
            by (rule 1(1)[OF over white Cons Continue P' human model])
          then show ?thesis
            by (simp add: Cons play_loop_human[OF over white] Continue)
        next
          case Break
          then show ?thesis using P' by (simp add: Cons play_loop_human[OF over white])
        next
          case (Raise e)
          then show ?thesis using P' by (simp add: Cons play_loop_human[OF over white])
        qed
      qed
    next
      case black: False
      show ?thesis
      proof (cases reps)
        case Nil
        then show ?thesis using 1(3) by (simp add: play_loop_no_reply[OF over black])
      next
        case (Cons r reps')
        have P': "P (fst (model_turn E st r))"
          by (rule model[OF 1(3) over black])
        show ?thesis
        proof (cases "snd (model_turn E st r)")
          case Continue
          have "P (snd (play_loop E (fst (model_turn E st r)) ins reps'))"
            by (rule 1(2)[OF over black Cons Continue P' human model])
          then show ?thesis
            by (simp add: Cons play_loop_model[OF over black] Continue)
        next
          case Break
          then show ?thesis using P' by (simp add: Cons play_loop_model[OF over black])
        next
          case (Raise e)
          then show ?thesis using P' by (simp add: Cons play_loop_model[OF over black])
        qed
      qed
    qed
  qed
qed




lemma reflects_initial: "reflects E (initial_game E)"
  by (simp add: reflects_def initial_game_def)

lemma reflects_unchanged: "reflects E st \<Longrightarrow> unchanged st st' \<Longrightarrow> reflects E st'"
  by (simp add: reflects_def unchanged_def)

lemma reflects_moved: "reflects E st \<Longrightarrow> moved E st m st' \<Longrightarrow> reflects E st'"
  by (simp add: reflects_def moved_def sans_snoc)

lemma reflects_human_turn: "reflects E st \<Longrightarrow> reflects E (fst (human_turn E st s))"
  using human_turn_effect[of st E s] by (blast intro: reflects_unchanged reflects_moved)

lemma reflects_model_turn: "reflects E st \<Longrightarrow> reflects E (fst (model_turn E st r))"
  using model_turn_effect[of st E r] by (blast intro: reflects_unchanged reflects_moved)

lemma reflects_play_loop:
  "reflects E st \<Longrightarrow> reflects E (snd (play_loop E st ins reps))"
  by (rule play_loop_invariant) (simp_all add: reflects_human_turn reflects_model_turn)

lemma play_chess_snd:
  "snd (play_chess E ins reps) =
     (if fst (play_loop E (initial_game E) ins reps) = Done
      then game_over_report E (snd (play_loop E (initial_game E) ins reps))
      else snd (play_loop E (initial_game E) ins reps))"
  by (cases "play_loop E (initial_game E) ins reps"; cases "fst (play_loop E (initial_game E) ins reps)")
     (simp_all add: play_chess_def)

lemma play_chess_fst: "fst (play_chess E ins reps) = fst (play_loop E (initial_game E) ins reps)"
  by (cases "play_loop E (initial_game E) ins reps"; cases "fst (play_loop E (initial_game E) ins reps)")
     (simp_all add: play_chess_def)

lemma game_over_report_simps [simp]:
  "board (game_over_report E st) = board st"
  "move_history (game_over_report E st) = move_history st"
  "pushes (out (game_over_report E st)) = pushes (out st)"
  "requests (out (game_over_report E st)) = requests (out st)"
  by (simp_all add: game_over_report_def Let_def)

lemma reflects_play_chess: "reflects E (snd (play_chess E ins reps))"
proof -
  have "reflects E (snd (play_loop E (initial_game E) ins reps))"
    by (rule reflects_play_loop[OF reflects_initial])
  then show ?thesis
    by (simp add: play_chess_snd reflects_def)
qed

text \<open>
  Claim C7. The move history is append-only. A turn of the human or of the model either
  leaves the board, the history and the pushes as they were, or pushes one move and
  appends the one notation of that move, written on the board before the push. At every
  point of a run the history is the list of the notations of the moves pushed so far, so
  that after \<open>N\<close> pushes its length is \<open>N\<close>.
\<close>

theorem move_history_append_only:
  "(unchanged st (fst (human_turn E st s)) \<or> (\<exists>m. moved E st m (fst (human_turn E st s)))) \<and>
   (unchanged st (fst (model_turn E st r)) \<or> (\<exists>m. moved E st m (fst (model_turn E st r)))) \<and>
   move_history (snd (play_chess E ins reps)) =
     sans E (new_board E) (pushes (out (snd (play_chess E ins reps)))) \<and>
   length (move_history (snd (play_chess E ins reps))) =
     length (pushes (out (snd (play_chess E ins reps))))"
proof -
  have h: "unchanged st (fst (human_turn E st s)) \<or> (\<exists>m. moved E st m (fst (human_turn E st s)))"
    using human_turn_effect[of st E s] by blast
  have m: "unchanged st (fst (model_turn E st r)) \<or> (\<exists>m. moved E st m (fst (model_turn E st r)))"
    using model_turn_effect[of st E r] by blast
  have r: "move_history (snd (play_chess E ins reps)) =
     sans E (new_board E) (pushes (out (snd (play_chess E ins reps))))"
    using reflects_play_chess[of E ins reps] by (simp add: reflects_def)
  have l: "length (move_history (snd (play_chess E ins reps))) =
     length (pushes (out (snd (play_chess E ins reps))))"
    by (subst r) simp
  from h m r l show ?thesis by blast
qed

lemma history_example:
  "move_history (snd (play_chess nim [''t9'', ''take2'', ''t1''] [ChosenMove ''t2'', NoToolCalls])) = [''t2'', ''t2'']"
  by code_simp




section \<open>The request sent to the model\<close>

lemma model_turn_requests:
  "requests (out (fst (model_turn E st r))) =
     requests (out st) @ [make_request E (board st) (move_history st)]"
  by (simp add: model_turn_def Let_def split: sum.splits)

lemma human_turn_requests:
  "requests (out (fst (human_turn E st s))) = requests (out st)"
  by (simp add: human_turn_def after_human_move_def Let_def split: sum.splits)

text \<open>
  Claim C8. A call of \<^verbatim>\<open>get_gpt4_move\<close> sends one request, and the \<^verbatim>\<open>enum\<close> of its tool
  schema is the list of the notations of the legal moves of the board, in the engine's
  order: as a set, exactly the notations of the legal move set. Every turn of the model
  sends that request for the board and the history of the game.
\<close>

theorem enum_is_legal_moves_in_san:
  "requests (fst (get_gpt4_move E b mh r)) = [make_request E b mh] \<and>
   req_enum (make_request E b mh) = map (san E b) (legal_moves E b) \<and>
   set (req_enum (make_request E b mh)) = san E b ` set (legal_moves E b) \<and>
   requests (out (fst (model_turn E st r))) =
     requests (out st) @ [make_request E (board st) (move_history st)]"
  by (simp add: model_turn_requests make_request_def legal_moves_san_def)

lemma enum_example: "req_enum (make_request nim (new_board nim) []) = [''t1'', ''t2'']"
  by code_simp

section \<open>The end of the game\<close>

lemma human_turn_no_raise: "snd (human_turn E st s) \<noteq> Raise e"
  by (simp add: human_turn_def after_human_move_def Let_def split: sum.splits)

lemma human_turn_break:
  "snd (human_turn E st s) = Break \<Longrightarrow> is_game_over E (board (fst (human_turn E st s)))"
  by (auto simp: human_turn_def after_human_move_def Let_def split: sum.splits if_splits)

lemma model_turn_no_break: "snd (model_turn E st r) \<noteq> Break"
  by (simp add: model_turn_def Let_def split: sum.splits)

lemma play_loop_Done:
  "fst (play_loop E st ins reps) = Done \<Longrightarrow> is_game_over E (board (snd (play_loop E st ins reps)))"
proof (induction E st ins reps rule: play_loop.induct)
  case (1 E st ins reps)
  show ?case
  proof (cases "is_game_over E (board st)")
    case True
    then show ?thesis by (simp add: play_loop_over)
  next
    case over: False
    show ?thesis
    proof (cases "turn E (board st) = WHITE")
      case white: True
      show ?thesis
      proof (cases ins)
        case Nil
        then show ?thesis using 1(3) by (simp add: play_loop_no_input[OF over white])
      next
        case (Cons s ins')
        show ?thesis
        proof (cases "snd (human_turn E st s)")
          case Continue
          have "fst (play_loop E (fst (human_turn E st s)) ins' reps) = Done"
            using 1(3) by (simp add: Cons play_loop_human[OF over white] Continue)
          then have "is_game_over E (board (snd (play_loop E (fst (human_turn E st s)) ins' reps)))"
            by (rule 1(1)[OF over white Cons Continue])
          then show ?thesis
            by (simp add: Cons play_loop_human[OF over white] Continue)
        next
          case Break
          then show ?thesis
            using human_turn_break[OF Break] by (simp add: Cons play_loop_human[OF over white])
        next
          case (Raise e)
          then show ?thesis using 1(3) by (simp add: Cons play_loop_human[OF over white])
        qed
      qed
    next
      case black: False
      show ?thesis
      proof (cases reps)
        case Nil
        then show ?thesis using 1(3) by (simp add: play_loop_no_reply[OF over black])
      next
        case (Cons r reps')
        show ?thesis
        proof (cases "snd (model_turn E st r)")
          case Continue
          have "fst (play_loop E (fst (model_turn E st r)) ins reps') = Done"
            using 1(3) by (simp add: Cons play_loop_model[OF over black] Continue)
          then have "is_game_over E (board (snd (play_loop E (fst (model_turn E st r)) ins reps')))"
            by (rule 1(2)[OF over black Cons Continue])
          then show ?thesis
            by (simp add: Cons play_loop_model[OF over black] Continue)
        next
          case Break
          then show ?thesis using model_turn_no_break[of E st r] by simp
        next
          case (Raise e)
          then show ?thesis using 1(3) by (simp add: Cons play_loop_model[OF over black])
        qed
      qed
    qed
  qed
qed

text \<open>
  Claim C4. The result code \<^verbatim>\<open>1-0\<close> is reported as a win of the human (White), \<^verbatim>\<open>0-1\<close> as
  a win of the model (Black), every other code as a draw; and when \<^verbatim>\<open>play_chess\<close> returns,
  the board is over and the last three lines printed are the end of the game, the result
  code of the board, and that classification of it.
\<close>

theorem result_classification:
  "verdict ''1-0'' = ''You (White) won!'' \<and>
   verdict ''0-1'' = ''GPT-4o (Black) won!'' \<and>
   (\<forall>res. res \<noteq> ''1-0'' \<and> res \<noteq> ''0-1'' \<longrightarrow> verdict res = ''It's a draw!'') \<and>
   (fst (play_chess E ins reps) = Done \<longrightarrow>
      (\<exists>st. is_game_over E (board st) \<and>
            snd (play_chess E ins reps) =
              emit st [Print ''\<newline>Game over!'',
                       Print (''Result: '' @ result E (board st)),
                       Print (verdict (result E (board st)))]))"
proof -
  have v: "verdict ''1-0'' = ''You (White) won!''" "verdict ''0-1'' = ''GPT-4o (Black) won!''"
    "\<forall>res. res \<noteq> ''1-0'' \<and> res \<noteq> ''0-1'' \<longrightarrow> verdict res = ''It's a draw!''"
    by (simp_all add: verdict_def)
  have "\<exists>st. is_game_over E (board st) \<and>
            snd (play_chess E ins reps) =
              emit st [Print ''\<newline>Game over!'',
                       Print (''Result: '' @ result E (board st)),
                       Print (verdict (result E (board st)))]"
    if d: "fst (play_chess E ins reps) = Done"
  proof -
    let ?st = "snd (play_loop E (initial_game E) ins reps)"
    from d have d': "fst (play_loop E (initial_game E) ins reps) = Done"
      by (simp add: play_chess_fst)
    have "is_game_over E (board ?st)" by (rule play_loop_Done[OF d'])
    moreover have "snd (play_chess E ins reps) =
              emit ?st [Print ''\<newline>Game over!'',
                       Print (''Result: '' @ result E (board ?st)),
                       Print (verdict (result E (board ?st)))]"
      using d' by (simp add: play_chess_snd game_over_report_def Let_def)
    ultimately show ?thesis by (intro exI[where x = "?st"] conjI)
  qed
  then have "fst (play_chess E ins reps) = Done \<longrightarrow>
      (\<exists>st. is_game_over E (board st) \<and>
            snd (play_chess E ins reps) =
              emit st [Print ''\<newline>Game over!'',
                       Print (''Result: '' @ result E (board st)),
                       Print (verdict (result E (board st)))])"
    by (rule impI)
  with v show ?thesis by (intro conjI)
qed

theorem result_classification_witness:
  "''1/2-1/2'' \<noteq> ''1-0'' \<and> ''1/2-1/2'' \<noteq> ''0-1'' \<and> verdict ''1/2-1/2'' = ''It's a draw!'' \<and>
   fst (play_chess nim [''t2'', ''t1''] [ChosenMove ''t1'']) = Done \<and>
   (\<exists>st. is_game_over nim (board st) \<and>
         snd (play_chess nim [''t2'', ''t1''] [ChosenMove ''t1'']) =
           emit st [Print ''\<newline>Game over!'',
                    Print (''Result: '' @ result nim (board st)),
                    Print (verdict (result nim (board st)))])"
proof -
  have d: "fst (play_chess nim [''t2'', ''t1''] [ChosenMove ''t1'']) = Done"
    by code_simp
  note rc = result_classification[of nim "[''t2'', ''t1'']" "[ChosenMove ''t1'']"]
  have n: "''1/2-1/2'' \<noteq> ''1-0'' \<and> ''1/2-1/2'' \<noteq> ''0-1''" by simp
  have v: "verdict ''1/2-1/2'' = ''It's a draw!''"
    by (rule rc[THEN conjunct2, THEN conjunct2, THEN conjunct1, rule_format, OF n])
  have e: "\<exists>st. is_game_over nim (board st) \<and>
         snd (play_chess nim [''t2'', ''t1''] [ChosenMove ''t1'']) =
           emit st [Print ''\<newline>Game over!'',
                    Print (''Result: '' @ result nim (board st)),
                    Print (verdict (result nim (board st)))]"
    by (rule rc[THEN conjunct2, THEN conjunct2, THEN conjunct2, rule_format, OF d])
  from n v d e show ?thesis by (intro conjI) simp_all
qed

section \<open>The credential\<close>

text \<open>
  Claim C9. When \<^verbatim>\<open>OPENAI_API_KEY\<close> is not set (or is empty), the script ends in a
  \<^verbatim>\<open>ValueError\<close> that nothing catches, before anything of the game has happened: nothing
  is printed, no line is read, no request is sent. The user is told by the last line of
  the traceback, whose message names the variable and says to set it before running the
  program. The handler of lines 205 to 207 is not reached by this error, which is raised
  at line 15.
\<close>

theorem missing_api_key_is_fatal:
  "api_key_missing api_key \<Longrightarrow>
     script E api_key ins reps =
       (Raised (ValueError ''OPENAI_API_KEY environment variable is not set. Please set it before running the program.''), []) \<and>
     traceback_last_line (fst (script E api_key ins reps)) =
       Some ''ValueError: OPENAI_API_KEY environment variable is not set. Please set it before running the program.''"
  by (simp add: script_def missing_key_message_def traceback_last_line_def)

theorem missing_api_key_is_fatal_witness:
  "api_key_missing None \<and>
   script nim None [''t1''] [NoToolCalls] =
       (Raised (ValueError ''OPENAI_API_KEY environment variable is not set. Please set it before running the program.''), []) \<and>
   traceback_last_line (fst (script nim None [''t1''] [NoToolCalls])) =
       Some ''ValueError: OPENAI_API_KEY environment variable is not set. Please set it before running the program.''"
proof -
  have h: "api_key_missing None" by (simp add: api_key_missing_def)
  show ?thesis
    by (rule conjI[OF h missing_api_key_is_fatal[OF h, of nim "[''t1'']" "[NoToolCalls]"]])
qed


section \<open>The answer of the model\<close>

lemma first_legal_move_legal:
  "legal_moves E b \<noteq> [] \<Longrightarrow>
     first_legal_move E b = Inr (hd (legal_moves E b)) \<and> hd (legal_moves E b) \<in> set (legal_moves E b)"
  by (cases "legal_moves E b") (simp_all add: first_legal_move_def)

lemma answer_fallback: "falls_back E b r \<Longrightarrow> snd (answer E b r) = first_legal_move E b"
  by (cases r) (simp_all add: except_handler_def first_legal_move_def split: list.splits sum.splits)

lemma get_gpt4_move_fallback:
  "falls_back E b r \<Longrightarrow> snd (get_gpt4_move E b mh r) = first_legal_move E b"
  by (simp add: get_gpt4_move_def answer_fallback)

lemma get_gpt4_move_parsed:
  "parse_san E b s = Inr m \<Longrightarrow> snd (get_gpt4_move E b mh (ChosenMove s)) = Inr m"
  by (simp add: get_gpt4_move_def)

lemma get_gpt4_move_never_raises:
  assumes "legal_moves E b \<noteq> []"
  shows "\<exists>m. snd (get_gpt4_move E b mh r) = Inr m"
proof (cases "falls_back E b r")
  case True
  then show ?thesis
    using first_legal_move_legal[OF assms] by (simp add: get_gpt4_move_fallback)
next
  case False
  then obtain s m where "r = ChosenMove s" "parse_san E b s = Inr m"
    by (cases r) (auto split: sum.splits)
  then show ?thesis by (simp add: get_gpt4_move_parsed)
qed

lemma get_gpt4_move_legal_or_parsed:
  assumes "snd (get_gpt4_move E b mh r) = Inr m"
  shows "m \<in> set (legal_moves E b) \<or> (\<exists>s. r = ChosenMove s \<and> parse_san E b s = Inr m)"
proof (cases "falls_back E b r")
  case True
  with assms have "first_legal_move E b = Inr m" by (simp add: get_gpt4_move_fallback)
  then have "m \<in> set (legal_moves E b)"
    by (cases "legal_moves E b") (simp_all add: first_legal_move_def)
  then show ?thesis ..
next
  case False
  then obtain s m' where r: "r = ChosenMove s" "parse_san E b s = Inr m'"
    by (cases r) (auto split: sum.splits)
  with assms have "m' = m" by (simp add: get_gpt4_move_parsed)
  with r show ?thesis by simp
qed

text \<open>
  Claim C1. The first half of the claim holds (\<open>get_gpt4_move_fallback\<close>,
  \<open>get_gpt4_move_never_raises\<close>): on every failure the first legal move is returned,
  and nothing is raised on a board with a legal move. The second half does not: a chosen
  notation that \<^verbatim>\<open>parse_san\<close> translates is returned as it is translated, with no test of
  membership in the legal moves. When the translation is not a legal move (python-chess
  translates \<^verbatim>\<open>--\<close> to the null move), \<^verbatim>\<open>get_gpt4_move\<close> returns a move outside the legal
  move set, and no fallback is taken.
\<close>

theorem get_gpt4_move_returns_unchecked_move:
  "parse_san E b s = Inr m \<Longrightarrow> m \<notin> set (legal_moves E b)
     \<Longrightarrow> snd (get_gpt4_move E b mh (ChosenMove s)) = Inr m \<and>
         snd (get_gpt4_move E b mh (ChosenMove s)) \<noteq> first_legal_move E b"
  by (cases "legal_moves E b") (auto simp: get_gpt4_move_parsed first_legal_move_def)

lemma nim_null_parsed: "parse_san nim (new_board nim) ''--'' = Inr Null"
  by (simp add: nim_def nim_parse_san_def)

lemma nim_null_illegal: "Null \<notin> set (legal_moves nim b)"
  by (simp add: nim_def nim_legal_moves_def)

theorem get_gpt4_move_returns_unchecked_move_witness:
  "parse_san nim (new_board nim) ''--'' = Inr Null \<and>
   Null \<notin> set (legal_moves nim (new_board nim)) \<and>
   snd (get_gpt4_move nim (new_board nim) [] (ChosenMove ''--'')) = Inr Null \<and>
   snd (get_gpt4_move nim (new_board nim) [] (ChosenMove ''--'')) \<noteq> first_legal_move nim (new_board nim)"
  by (rule conjI[OF nim_null_parsed conjI[OF nim_null_illegal
        get_gpt4_move_returns_unchecked_move[OF nim_null_parsed nim_null_illegal]]])

section \<open>The human's turn\<close>

lemma human_turn_san_moved:
  "parse_san E (board st) s = Inr m \<Longrightarrow> moved E st m (fst (human_turn E st s))"
  by (simp add: human_turn_def after_human_move_def moved_def Let_def)

lemma human_turn_san_first:
  "parse_san E (board st) s = Inr m \<Longrightarrow>
     human_turn E st s =
       after_human_move E (emit st [Input ''\<newline>Enter your move (e.g. 'e4' or 'e2e4'): '']) m"
  by (simp add: human_turn_def Let_def)

lemma human_turn_uci_second:
  "parse_san E (board st) s = Inl e \<Longrightarrow> from_uci E s = Inr m \<Longrightarrow>
     human_turn E st s =
       (if m \<notin> set (legal_moves E (board st))
        then (emit (emit st [Input ''\<newline>Enter your move (e.g. 'e4' or 'e2e4'): ''])
                [Print ''\<newline>Illegal move! Try again.''], Continue)
        else after_human_move E (emit st [Input ''\<newline>Enter your move (e.g. 'e4' or 'e2e4'): '']) m)"
  by (simp add: human_turn_def Let_def)

text \<open>
  Claim C2. The order of the two notations is as claimed (\<open>human_turn_san_first\<close>,
  \<open>human_turn_uci_second\<close>), and a move read as coordinate notation is tested against
  the legal moves. A move read as standard notation is not: whatever \<^verbatim>\<open>parse_san\<close>
  returns is pushed. An input that \<^verbatim>\<open>parse_san\<close> translates to a move outside the legal
  moves (for python-chess the input \<^verbatim>\<open>--\<close>, the null move) is applied to the board
  instead of being rejected.
\<close>

theorem san_parsed_move_is_not_checked:
  "parse_san E (board st) s = Inr m \<Longrightarrow> m \<notin> set (legal_moves E (board st))
     \<Longrightarrow> moved E st m (fst (human_turn E st s))"
  by (rule human_turn_san_moved)

theorem san_parsed_move_is_not_checked_witness:
  "parse_san nim (board (initial_game nim)) ''--'' = Inr Null \<and>
   Null \<notin> set (legal_moves nim (board (initial_game nim))) \<and>
   moved nim (initial_game nim) Null (fst (human_turn nim (initial_game nim) ''--''))"
proof -
  have p: "parse_san nim (board (initial_game nim)) ''--'' = Inr Null"
    by (simp add: initial_game_def nim_null_parsed)
  have l: "Null \<notin> set (legal_moves nim (board (initial_game nim)))"
    by (rule nim_null_illegal)
  show ?thesis
    by (intro conjI p l san_parsed_move_is_not_checked[OF p l])
qed

lemma rejected_reprompts:
  "rejected E (board st) s \<Longrightarrow>
     unchanged st (fst (human_turn E st s)) \<and> snd (human_turn E st s) = Continue \<and>
     (\<exists>msg. out (fst (human_turn E st s)) =
             out st @ [Input ''\<newline>Enter your move (e.g. 'e4' or 'e2e4'): '', Print msg])"
  by (auto simp: rejected_def human_turn_def unchanged_def Let_def split: sum.splits)

text \<open>
  Claim C5. An input that the loop rejects is answered by an error message and a new
  prompt, with the board and the history as they were (\<open>rejected_reprompts\<close>), any number
  of times in a row (\<open>rejected_retries\<close>, below). But not every input that yields no legal
  move is rejected: on an input that \<^verbatim>\<open>parse_san\<close> translates to a move outside the legal
  moves, no error message is printed, and the board and the history change.
\<close>

theorem null_move_input_is_not_reprompted:
  "parse_san E (board st) s = Inr m \<Longrightarrow> m \<notin> set (legal_moves E (board st))
     \<Longrightarrow> printed (out (fst (human_turn E st s))) =
           printed (out st) @ [''\<newline>Board after your move:''] \<and>
         board (fst (human_turn E st s)) = push E (board st) m \<and>
         move_history (fst (human_turn E st s)) = move_history st @ [san E (board st) m]"
  by (simp add: human_turn_san_first after_human_move_def Let_def)

theorem null_move_input_is_not_reprompted_witness:
  "parse_san nim (board (initial_game nim)) ''--'' = Inr Null \<and>
   Null \<notin> set (legal_moves nim (board (initial_game nim))) \<and>
   printed (out (fst (human_turn nim (initial_game nim) ''--''))) =
     printed (out (initial_game nim)) @ [''\<newline>Board after your move:''] \<and>
   board (fst (human_turn nim (initial_game nim) ''--'')) =
     push nim (board (initial_game nim)) Null \<and>
   move_history (fst (human_turn nim (initial_game nim) ''--'')) =
     move_history (initial_game nim) @ [san nim (board (initial_game nim)) Null]"
proof -
  have p: "parse_san nim (board (initial_game nim)) ''--'' = Inr Null"
    by (simp add: initial_game_def nim_null_parsed)
  have l: "Null \<notin> set (legal_moves nim (board (initial_game nim)))"
    by (rule nim_null_illegal)
  show ?thesis
    by (rule conjI[OF p conjI[OF l null_move_input_is_not_reprompted[OF p l]]])
qed

section \<open>Sides and turns\<close>

lemma turn_log_append:
  "turn_log E b (xs @ ys) = turn_log E b xs @ turn_log E (foldl (push E) b (pushes xs)) ys"
  by (induction E b xs rule: turn_log.induct) simp_all

lemma asked_append: "asked a (xs @ ys) = asked (asked a xs) ys"
  by (induction a xs rule: asked.induct) simp_all

lemma movers_append: "movers a (xs @ ys) = movers a xs @ movers (asked a xs) ys"
  by (induction a xs rule: movers.induct) simp_all

lemma length_movers: "length (movers a es) = length (pushes es)"
  by (induction a es rule: movers.induct) simp_all

lemma answer_quiet:
  "turn_log E b' (fst (answer E b r)) = []"
  "movers a (fst (answer E b r)) = []"
  "asked a (fst (answer E b r)) = a"
  by (cases r; simp add: says_def except_handler_def split: list.splits sum.splits)+

lemma get_gpt4_move_log:
  "turn_log E b' (fst (get_gpt4_move E b mh r)) = [(turn E b', Model)]"
  "movers a (fst (get_gpt4_move E b mh r)) = []"
  "asked a (fst (get_gpt4_move E b mh r)) = Model"
  by (simp_all add: get_gpt4_move_def turn_log_append movers_append asked_append answer_quiet)

lemma human_turn_log:
  "reflects E st \<Longrightarrow>
   turn_log E (new_board E) (out (fst (human_turn E st s))) =
     turn_log E (new_board E) (out st) @ [(turn E (board st), Human)]"
  by (simp add: human_turn_def after_human_move_def reflects_def Let_def turn_log_append
           split: sum.splits)

lemma model_turn_log:
  "reflects E st \<Longrightarrow>
   turn_log E (new_board E) (out (fst (model_turn E st r))) =
     turn_log E (new_board E) (out st) @ [(turn E (board st), Model)]"
  by (simp add: model_turn_def reflects_def Let_def turn_log_append get_gpt4_move_log
           split: sum.splits)

lemma human_turn_movers:
  "movers a (out (fst (human_turn E st s))) =
     movers a (out st) @
       (if pushes (out (fst (human_turn E st s))) = pushes (out st) then [] else [Human])"
  by (simp add: human_turn_def after_human_move_def Let_def movers_append split: sum.splits)

lemma model_turn_movers:
  "movers a (out (fst (model_turn E st r))) =
     movers a (out st) @
       (if pushes (out (fst (model_turn E st r))) = pushes (out st) then [] else [Model])"
  by (simp add: model_turn_def Let_def movers_append asked_append get_gpt4_move_log split: sum.splits)

lemma dispatched_snoc: "dispatched (log @ [(t, a)]) = (dispatched log \<and> (a = Human) = (t = WHITE))"
  by (simp add: dispatched_def)

lemma alternating_Suc:
  "alternating (Suc n) = alternating n @ [if even n then Human else Model]"
  by (simp add: alternating_def)

lemma well_dispatched_play_loop:
  assumes "well_dispatched E st"
  shows "well_dispatched E (snd (play_loop E st ins reps))"
proof (rule play_loop_invariant[where P = "well_dispatched E", OF assms])
  fix st s
  assume "well_dispatched E st" "turn E (board st) = WHITE"
  then show "well_dispatched E (fst (human_turn E st s))"
    by (simp add: well_dispatched_def reflects_human_turn human_turn_log dispatched_snoc)
next
  fix st r
  assume "well_dispatched E st" "turn E (board st) \<noteq> WHITE"
  then show "well_dispatched E (fst (model_turn E st r))"
    by (simp add: well_dispatched_def reflects_model_turn model_turn_log dispatched_snoc)
qed

lemma in_step_unchanged:
  "in_step E st \<Longrightarrow> unchanged st st' \<Longrightarrow> movers Human (out st') = movers Human (out st)
     \<Longrightarrow> in_step E st'"
  by (auto simp: in_step_def unchanged_def reflects_def)

lemma in_step_moved:
  assumes flip: "\<forall>b m. turn E (push E b m) = (\<not> turn E b)"
    and "in_step E st" and mv: "moved E st m st'"
    and who: "movers Human (out st') = movers Human (out st) @ [if turn E (board st) = WHITE then Human else Model]"
  shows "in_step E st'"
proof -
  from assms(2) have r: "reflects E st"
    and a: "movers Human (out st) = alternating (length (pushes (out st)))"
    and p: "(turn E (board st) = WHITE) = even (length (pushes (out st)))"
    by (simp_all add: in_step_def)
  have r': "reflects E st'" by (rule reflects_moved[OF r mv])
  from mv have l: "pushes (out st') = pushes (out st) @ [m]" and b: "board st' = push E (board st) m"
    by (simp_all add: moved_def)
  have a': "movers Human (out st') = alternating (length (pushes (out st')))"
    using who a p by (simp add: l alternating_Suc)
  have p': "(turn E (board st') = WHITE) = even (length (pushes (out st')))"
    using flip p by (simp add: l b WHITE_def)
  from r' a' p' show ?thesis by (simp add: in_step_def)
qed

lemma in_step_human_turn:
  assumes flip: "\<forall>b m. turn E (push E b m) = (\<not> turn E b)"
    and i: "in_step E st" and w: "turn E (board st) = WHITE"
  shows "in_step E (fst (human_turn E st s))"
proof -
  from human_turn_effect[of st E s] consider
    (same) "unchanged st (fst (human_turn E st s))"
    | (push) m where "moved E st m (fst (human_turn E st s))"
    by blast
  then show ?thesis
  proof cases
    case same
    then have "pushes (out (fst (human_turn E st s))) = pushes (out st)"
      by (simp add: unchanged_def)
    then have "movers Human (out (fst (human_turn E st s))) = movers Human (out st)"
      by (simp add: human_turn_movers)
    with i same show ?thesis by (rule in_step_unchanged)
  next
    case push
    then have "pushes (out (fst (human_turn E st s))) \<noteq> pushes (out st)"
      by (simp add: moved_def)
    then have "movers Human (out (fst (human_turn E st s))) =
        movers Human (out st) @ [if turn E (board st) = WHITE then Human else Model]"
      using w by (simp add: human_turn_movers)
    with flip i push show ?thesis by (rule in_step_moved)
  qed
qed

lemma in_step_model_turn:
  assumes flip: "\<forall>b m. turn E (push E b m) = (\<not> turn E b)"
    and i: "in_step E st" and w: "turn E (board st) \<noteq> WHITE"
  shows "in_step E (fst (model_turn E st r))"
proof -
  from model_turn_effect[of st E r] consider
    (same) "unchanged st (fst (model_turn E st r))"
    | (push) m where "moved E st m (fst (model_turn E st r))"
    by blast
  then show ?thesis
  proof cases
    case same
    then have "pushes (out (fst (model_turn E st r))) = pushes (out st)"
      by (simp add: unchanged_def)
    then have "movers Human (out (fst (model_turn E st r))) = movers Human (out st)"
      by (simp add: model_turn_movers)
    with i same show ?thesis by (rule in_step_unchanged)
  next
    case push
    then have "pushes (out (fst (model_turn E st r))) \<noteq> pushes (out st)"
      by (simp add: moved_def)
    then have "movers Human (out (fst (model_turn E st r))) =
        movers Human (out st) @ [if turn E (board st) = WHITE then Human else Model]"
      using w by (simp add: model_turn_movers)
    with flip i push show ?thesis by (rule in_step_moved)
  qed
qed

lemma in_step_play_loop:
  assumes flip: "\<forall>b m. turn E (push E b m) = (\<not> turn E b)" and i: "in_step E st"
  shows "in_step E (snd (play_loop E st ins reps))"
proof (rule play_loop_invariant[where P = "in_step E", OF i])
  fix st s
  assume "in_step E st" "turn E (board st) = WHITE"
  with flip show "in_step E (fst (human_turn E st s))" by (rule in_step_human_turn)
next
  fix st r
  assume "in_step E st" "turn E (board st) \<noteq> WHITE"
  with flip show "in_step E (fst (model_turn E st r))" by (rule in_step_model_turn)
qed

lemma initial_well_dispatched: "well_dispatched E (initial_game E)"
  by (simp add: well_dispatched_def reflects_initial) (simp add: initial_game_def dispatched_def)

lemma initial_in_step: "turn E (new_board E) = WHITE \<Longrightarrow> in_step E (initial_game E)"
  by (simp add: in_step_def reflects_initial) (simp add: initial_game_def alternating_def)

lemma game_over_report_log:
  "turn_log E b (out (game_over_report E st)) = turn_log E b (out st)"
  "movers a (out (game_over_report E st)) = movers a (out st)"
  by (simp_all add: game_over_report_def Let_def turn_log_append movers_append)

text \<open>
  Claim C10. On a rules engine whose new board has White to move and on which a push
  passes the turn: throughout the game the human is asked exactly when White is to move
  and the model exactly when Black is, the moves are made by the human and the model
  alternately, the human first, and White is to move exactly after an even number of
  moves.
\<close>

theorem sides_fixed_and_alternating:
  assumes "turn E (new_board E) = WHITE"
    and "\<forall>b m. turn E (push E b m) = (\<not> turn E b)"
  shows "dispatched (turn_log E (new_board E) (out (snd (play_chess E ins reps)))) \<and>
         movers Human (out (snd (play_chess E ins reps))) =
           alternating (length (move_history (snd (play_chess E ins reps)))) \<and>
         (turn E (board (snd (play_chess E ins reps))) = WHITE) =
           even (length (move_history (snd (play_chess E ins reps))))"
proof -
  let ?st = "snd (play_loop E (initial_game E) ins reps)"
  have d: "well_dispatched E ?st"
    by (rule well_dispatched_play_loop[OF initial_well_dispatched])
  have i: "in_step E ?st"
    by (rule in_step_play_loop[OF assms(2) initial_in_step[OF assms(1)]])
  have len: "length (move_history ?st) = length (pushes (out ?st))"
    using i by (simp add: in_step_def reflects_def)
  from d have 1: "dispatched (turn_log E (new_board E) (out (snd (play_chess E ins reps))))"
    by (simp add: play_chess_snd game_over_report_log well_dispatched_def)
  from i len have 2: "movers Human (out (snd (play_chess E ins reps))) =
           alternating (length (move_history (snd (play_chess E ins reps))))"
    by (simp add: play_chess_snd game_over_report_log in_step_def)
  from i len have 3: "(turn E (board (snd (play_chess E ins reps))) = WHITE) =
           even (length (move_history (snd (play_chess E ins reps))))"
    by (simp add: play_chess_snd in_step_def)
  from 1 2 3 show ?thesis by (intro conjI)
qed

lemma nim_starts_white: "turn nim (new_board nim) = WHITE"
  by (simp add: nim_def WHITE_def)

lemma nim_push_flips: "\<forall>b m. turn nim (push nim b m) = (\<not> turn nim b)"
  by (simp add: nim_def nim_push_def)

theorem sides_fixed_and_alternating_witness:
  "turn nim (new_board nim) = WHITE \<and>
   (\<forall>b m. turn nim (push nim b m) = (\<not> turn nim b)) \<and>
   dispatched (turn_log nim (new_board nim)
      (out (snd (play_chess nim [''t9'', ''t1'', ''t1''] [ChosenMove ''t1''])))) \<and>
   movers Human (out (snd (play_chess nim [''t9'', ''t1'', ''t1''] [ChosenMove ''t1'']))) =
     alternating (length (move_history (snd (play_chess nim [''t9'', ''t1'', ''t1''] [ChosenMove ''t1''])))) \<and>
   (turn nim (board (snd (play_chess nim [''t9'', ''t1'', ''t1''] [ChosenMove ''t1'']))) = WHITE) =
     even (length (move_history (snd (play_chess nim [''t9'', ''t1'', ''t1''] [ChosenMove ''t1'']))))"
  by (rule conjI[OF nim_starts_white conjI[OF nim_push_flips
        sides_fixed_and_alternating[OF nim_starts_white nim_push_flips]]])

lemma alternation_example:
  "movers Human (out (snd (play_chess nim [''t9'', ''t1'', ''t1''] [ChosenMove ''t1'']))) =
     [Human, Model, Human]"
  by code_simp

section \<open>Legality of the pushed moves, and retries\<close>

lemma legally_played_unchanged:
  "legally_played E st \<Longrightarrow> unchanged st st' \<Longrightarrow> legally_played E st'"
  by (simp add: legally_played_def unchanged_def reflects_def)

lemma legally_played_moved:
  assumes "legally_played E st" and mv: "moved E st m st'"
    and legal: "m \<in> set (legal_moves E (board st))"
  shows "legally_played E st'"
proof -
  from assms(1) have r: "reflects E st" and a: "all_legal E (new_board E) (pushes (out st))"
    by (simp_all add: legally_played_def)
  have r': "reflects E st'" by (rule reflects_moved[OF r mv])
  from r have b: "foldl (push E) (new_board E) (pushes (out st)) = board st"
    by (simp add: reflects_def)
  from mv have p: "pushes (out st') = pushes (out st) @ [m]" by (simp add: moved_def)
  have "all_legal E (new_board E) (pushes (out st'))"
    using a legal by (simp add: p all_legal_snoc b)
  with r' show ?thesis by (simp add: legally_played_def)
qed

lemma get_gpt4_move_legal_if_parse_san_legal:
  assumes "\<forall>b s m. parse_san E b s = Inr m \<longrightarrow> m \<in> set (legal_moves E b)"
    and "snd (get_gpt4_move E b mh r) = Inr m"
  shows "m \<in> set (legal_moves E b)"
  using get_gpt4_move_legal_or_parsed[OF assms(2)] assms(1) by blast

lemma legally_played_play_loop:
  assumes san: "\<forall>b s m. parse_san E b s = Inr m \<longrightarrow> m \<in> set (legal_moves E b)"
    and "legally_played E st"
  shows "legally_played E (snd (play_loop E st ins reps))"
proof (rule play_loop_invariant[where P = "legally_played E", OF assms(2)])
  fix st s
  assume l: "legally_played E st"
  from human_turn_effect[of st E s] san l
  show "legally_played E (fst (human_turn E st s))"
    by (blast intro: legally_played_unchanged legally_played_moved)
next
  fix st r
  assume l: "legally_played E st"
  from model_turn_effect[of st E r] get_gpt4_move_legal_if_parse_san_legal[OF san] l
  show "legally_played E (fst (model_turn E st r))"
    by (blast intro: legally_played_unchanged legally_played_moved)
qed

lemma pushes_legal_if_parse_san_legal:
  assumes "\<forall>b s m. parse_san E b s = Inr m \<longrightarrow> m \<in> set (legal_moves E b)"
  shows "all_legal E (new_board E) (pushes (out (snd (play_chess E ins reps))))"
proof -
  have "legally_played E (initial_game E)"
    by (simp add: legally_played_def reflects_initial) (simp add: initial_game_def)
  then have "legally_played E (snd (play_loop E (initial_game E) ins reps))"
    by (rule legally_played_play_loop[OF assms])
  then show ?thesis
    by (simp add: play_chess_snd legally_played_def)
qed

lemma rejected_retries:
  assumes "\<not> is_game_over E (board st)" and "turn E (board st) = WHITE"
    and "\<forall>s \<in> set bad. rejected E (board st) s"
  shows "\<exists>st'. play_loop E st (bad @ ins) reps = play_loop E st' ins reps \<and>
               unchanged st st' \<and>
               length (printed (out st')) = length (printed (out st)) + length bad"
  using assms
proof (induction bad arbitrary: st)
  case Nil
  show ?case by (rule exI[where x = st]) (simp add: unchanged_def)
next
  case (Cons s bad)
  let ?st1 = "fst (human_turn E st s)"
  from Cons.prems(3) have rj: "rejected E (board st) s" by simp
  note rp = rejected_reprompts[OF rj]
  from rp have u: "unchanged st ?st1" and c: "snd (human_turn E st s) = Continue"
    by simp_all
  from rp obtain msg where o: "out ?st1 = out st @ [Input ''\<newline>Enter your move (e.g. 'e4' or 'e2e4'): '', Print msg]"
    by blast
  from u have b: "board ?st1 = board st" by (simp add: unchanged_def)
  have step: "play_loop E st ((s # bad) @ ins) reps = play_loop E ?st1 (bad @ ins) reps"
    using c by (simp add: play_loop_human[OF Cons.prems(1,2)])
  have "\<exists>st'. play_loop E ?st1 (bad @ ins) reps = play_loop E st' ins reps \<and>
               unchanged ?st1 st' \<and>
               length (printed (out st')) = length (printed (out ?st1)) + length bad"
    using Cons.prems by (intro Cons.IH) (simp_all add: b)
  then obtain st' where st': "play_loop E ?st1 (bad @ ins) reps = play_loop E st' ins reps"
    "unchanged ?st1 st'" "length (printed (out st')) = length (printed (out ?st1)) + length bad"
    by blast
  have "unchanged st st'" using u st'(2) by (simp add: unchanged_def)
  moreover have "length (printed (out st')) = length (printed (out st)) + length (s # bad)"
    using st'(3) by (simp add: o)
  ultimately show ?case using step st'(1) by (intro exI[where x = st']) simp
qed

lemma play_loop_out_of_script: "snd (play_loop E st [] []) = st"
proof (cases "is_game_over E (board st)")
  case True
  then show ?thesis by (simp add: play_loop_over)
next
  case False
  then show ?thesis
    by (cases "turn E (board st) = WHITE") (simp_all add: play_loop_no_input play_loop_no_reply)
qed

lemma play_loop_one_input:
  assumes "\<not> is_game_over E (board st)" and "turn E (board st) = WHITE"
  shows "snd (play_loop E st [s] []) = fst (human_turn E st s)"
  by (cases "snd (human_turn E st s)")
     (simp_all add: play_loop_human[OF assms] play_loop_out_of_script)

text \<open>
  Claim C3. The board is changed by \<^verbatim>\<open>push\<close> alone, one move in a pass of the loop, and
  it always reflects the moves pushed so far (\<open>reflects_play_chess\<close>); the pushed moves
  are legal whenever \<^verbatim>\<open>parse_san\<close> returns legal moves only
  (\<open>pushes_legal_if_parse_san_legal\<close>). But the program itself does not see to it: on a
  first line that \<^verbatim>\<open>parse_san\<close> translates to a move outside the legal moves, that move
  is pushed.
\<close>

theorem unchecked_move_is_pushed:
  assumes "\<not> is_game_over E (new_board E)" and "turn E (new_board E) = WHITE"
    and "parse_san E (new_board E) s = Inr m" and "m \<notin> set (legal_moves E (new_board E))"
  shows "pushes (out (snd (play_chess E [s] []))) = [m] \<and>
         board (snd (play_chess E [s] [])) = push E (new_board E) m \<and>
         \<not> all_legal E (new_board E) (pushes (out (snd (play_chess E [s] []))))"
proof -
  let ?st = "fst (human_turn E (initial_game E) s)"
  have b0: "board (initial_game E) = new_board E" and p0: "pushes (out (initial_game E)) = []"
    by (simp_all add: initial_game_def)
  have l: "snd (play_loop E (initial_game E) [s] []) = ?st"
    using assms(1,2) by (intro play_loop_one_input) (simp_all add: b0)
  have "moved E (initial_game E) m ?st"
    using assms(3) by (intro human_turn_san_moved) (simp add: b0)
  then have p: "pushes (out ?st) = [m]" and b: "board ?st = push E (new_board E) m"
    by (simp_all add: moved_def b0 p0)
  have 1: "pushes (out (snd (play_chess E [s] []))) = [m]"
    by (simp add: play_chess_snd l p)
  have 2: "board (snd (play_chess E [s] [])) = push E (new_board E) m"
    by (simp add: play_chess_snd l b)
  have 3: "\<not> all_legal E (new_board E) (pushes (out (snd (play_chess E [s] []))))"
    using assms(4) by (simp add: 1)
  from 1 2 3 show ?thesis by (intro conjI)
qed

lemma nim_start_not_over: "\<not> is_game_over nim (new_board nim)"
  by (simp add: nim_def)

theorem unchecked_move_is_pushed_witness:
  "\<not> is_game_over nim (new_board nim) \<and> turn nim (new_board nim) = WHITE \<and>
   parse_san nim (new_board nim) ''--'' = Inr Null \<and>
   Null \<notin> set (legal_moves nim (new_board nim)) \<and>
   pushes (out (snd (play_chess nim [''--''] []))) = [Null] \<and>
   board (snd (play_chess nim [''--''] [])) = push nim (new_board nim) Null \<and>
   \<not> all_legal nim (new_board nim) (pushes (out (snd (play_chess nim [''--''] []))))"
  by (intro conjI nim_start_not_over nim_starts_white nim_null_parsed nim_null_illegal
        unchecked_move_is_pushed[OF nim_start_not_over nim_starts_white nim_null_parsed
          nim_null_illegal, THEN conjunct1]
        unchecked_move_is_pushed[OF nim_start_not_over nim_starts_white nim_null_parsed
          nim_null_illegal, THEN conjunct2, THEN conjunct1]
        unchecked_move_is_pushed[OF nim_start_not_over nim_starts_white nim_null_parsed
          nim_null_illegal, THEN conjunct2, THEN conjunct2])

end
